theory Spec2Isabelle
  imports
    Complex_Main
    "HOL-Library.Char_ord"
    "HOL-Library.List_Lexorder"
    "HOL-Library.Product_Lexorder"
begin

section \<open>Data model\<close>

text \<open>
  GeneTicker reads a GenBank flat file with Biopython and counts the codons of every CDS
  feature (\<^verbatim>\<open>GeneTicker/core.py\<close>, \<^verbatim>\<open>calculate_codon_frequency_to_df\<close>).

  The reader \<^verbatim>\<open>SeqIO.parse\<close> is a generator: it yields records one at a time and may
  raise at any point (a missing file raises before the first record, malformed content
  raises where it is met). The input is therefore a list of events, each either a record
  or the exception the reader raises there. Whatever follows an exception is never read.

  A feature carries its type tag, its qualifier dictionary (a key maps to a list of
  strings) and the text of \<^verbatim>\<open>feature.extract(record.seq)\<close>. Strings are ASCII, as
  GenBank files are. Console output (the \<^verbatim>\<open>verbose\<close> diagnostics and the counter
  \<^verbatim>\<open>total_cds_processed\<close> that only feeds them) is not part of the model.
\<close>

datatype py_error = FileNotFoundError | IndexError | OtherException

record feature =
  ftype :: string
  qualifiers :: "string \<rightharpoonup> string list"
  extracted :: string

record seq_record =
  rec_id :: string
  features :: "feature list"

type_synonym gbff_source = "(py_error + seq_record) list"

text \<open>
  \<^verbatim>\<open>CodonAACounter = Counter[Tuple[str, str, str]]\<close>: keys are (codon, aa_code,
  special_type). A Counter is a dictionary, so it keeps its keys in insertion order;
  it is an association list with distinct keys here.
\<close>

type_synonym codon_key = "string \<times> string \<times> string"

type_synonym CodonAACounter = "(codon_key \<times> nat) list"

definition VALID_BASES :: "char set" where
  "VALID_BASES = set ''ATCG''"

text \<open>
  \<^verbatim>\<open>DEFAULT_MIN_FREQ = 0.05\<close>. Frequencies and thresholds are Python floats; the model
  computes them in exact rational arithmetic.
\<close>

definition DEFAULT_MIN_FREQ :: rat where
  "DEFAULT_MIN_FREQ = 5 / 100"

section \<open>Aggregation\<close>

text \<open>\<^verbatim>\<open>str.upper()\<close> on ASCII text: the letters a..z move to A..Z.\<close>

definition upper_char :: "char \<Rightarrow> char" where
  "upper_char c =
     (let n = (of_char c :: nat)
      in if 97 \<le> n \<and> n \<le> 122 then char_of (n - 32) else c)"

definition upper :: "string \<Rightarrow> string" where
  "upper s = map upper_char s"

text \<open>
  \<^verbatim>\<open>qualifiers.get(key, [dflt])[0]\<close>: the first value of the qualifier, the default
  when the key is absent, and IndexError when the key holds an empty list.
\<close>

definition qualifier_first ::
  "(string \<rightharpoonup> string list) \<Rightarrow> string \<Rightarrow> string \<Rightarrow> py_error + string" where
  "qualifier_first q key dflt =
     (case (case q key of None \<Rightarrow> [dflt] | Some vs \<Rightarrow> vs) of
        [] \<Rightarrow> Inl IndexError
      | v # _ \<Rightarrow> Inr v)"

text \<open>\<^verbatim>\<open>codon_aa_counts[key] += 1\<close>: a new key enters at the end with count 1.\<close>

fun counter_incr :: "CodonAACounter \<Rightarrow> codon_key \<Rightarrow> CodonAACounter" where
  "counter_incr [] k = [(k, 1)]"
| "counter_incr ((k', n) # rest) k =
     (if k' = k then (k', n + 1) # rest else (k', n) # counter_incr rest k)"

text \<open>The key counted at offset \<open>i\<close> of a CDS (the body of the codon loop).\<close>

definition codon_event :: "string \<Rightarrow> string \<Rightarrow> nat \<Rightarrow> codon_key" where
  "codon_event translation_str cds_seq_str i =
     (let codon = take 3 (drop i cds_seq_str);
          aa_index = i div 3
      in if aa_index < length translation_str
         then (codon, [translation_str ! aa_index], if i = 0 then ''START'' else '''')
         else (codon, ''*'', ''STOP''))"

text \<open>\<^verbatim>\<open>range(0, stop, 3)\<close>.\<close>

definition range_step3 :: "nat \<Rightarrow> nat list" where
  "range_step3 stop = map (\<lambda>k. 3 * k) [0 ..< (stop + 2) div 3]"

definition count_codons ::
  "CodonAACounter \<Rightarrow> string \<Rightarrow> string \<Rightarrow> nat \<Rightarrow> CodonAACounter" where
  "count_codons counts translation_str cds_seq_str truncated_len =
     fold (\<lambda>i c. counter_incr c (codon_event translation_str cds_seq_str i))
       (range_step3 truncated_len) counts"

text \<open>
  The body of the feature loop. Each \<^verbatim>\<open>continue\<close> leaves the counter as it is; an
  exception leaves the loop.
\<close>

definition process_feature :: "CodonAACounter \<Rightarrow> feature \<Rightarrow> py_error + CodonAACounter" where
  "process_feature counts f =
     (if ftype f = ''CDS'' then
        (case qualifier_first (qualifiers f) ''locus_tag'' ''?'' of
           Inl e \<Rightarrow> Inl e
         | Inr locus_tag \<Rightarrow>
            (case qualifier_first (qualifiers f) ''translation'' '''' of
               Inl e \<Rightarrow> Inl e
             | Inr translation_str \<Rightarrow>
                 if translation_str = [] then Inr counts
                 else if ''pseudo'' \<in> dom (qualifiers f) then Inr counts
                 else
                   let cds_seq_str = upper (extracted f)
                   in if \<not> set cds_seq_str \<subseteq> VALID_BASES then Inr counts
                      else
                        let cds_len = length (extracted f);
                            truncated_len = (cds_len div 3) * 3
                        in Inr (count_codons counts translation_str cds_seq_str
                                  truncated_len)))
      else Inr counts)"

fun process_features :: "CodonAACounter \<Rightarrow> feature list \<Rightarrow> py_error + CodonAACounter" where
  "process_features counts [] = Inr counts"
| "process_features counts (f # fs) =
     (case process_feature counts f of
        Inl e \<Rightarrow> Inl e
      | Inr counts' \<Rightarrow> process_features counts' fs)"

text \<open>The record loop inside \<^verbatim>\<open>try\<close>: the first exception ends it.\<close>

fun parse_loop :: "CodonAACounter \<Rightarrow> gbff_source \<Rightarrow> py_error + CodonAACounter" where
  "parse_loop counts [] = Inr counts"
| "parse_loop counts (Inl e # rest) = Inl e"
| "parse_loop counts (Inr r # rest) =
     (case process_features counts (features r) of
        Inl e \<Rightarrow> Inl e
      | Inr counts' \<Rightarrow> parse_loop counts' rest)"

section \<open>Report\<close>

text \<open>A row of the DataFrame; the fields are its columns, in the order of the source.\<close>

record report_row =
  amino_acid :: string
  codon :: string
  count :: nat
  freq_percent :: rat
  special_type :: string

text \<open>\<^verbatim>\<open>sum(codon_aa_counts.values())\<close>.\<close>

definition total_count :: "CodonAACounter \<Rightarrow> nat" where
  "total_count c = sum_list (map snd c)"

definition make_row :: "nat \<Rightarrow> codon_key \<times> nat \<Rightarrow> report_row" where
  "make_row total_codons item =
     (case item of ((cod, aa_code, special), cnt) \<Rightarrow>
        \<lparr> amino_acid = (if special = ''STOP'' \<or> aa_code = ''*'' then ''*'' else aa_code),
          codon = cod,
          count = cnt,
          freq_percent = (of_nat cnt / of_nat total_codons) * 100,
          special_type = special \<rparr>)"

text \<open>
  Lines 135 to 167: the total, the rows over \<^verbatim>\<open>sorted(codon_aa_counts.items())\<close>, and
  the frequency filter. \<^verbatim>\<open>None\<close> is the value \<open>None\<close>.
\<close>

definition build_report :: "CodonAACounter \<Rightarrow> rat \<Rightarrow> report_row list option" where
  "build_report codon_aa_counts min_freq_threshold =
     (let total_codons = total_count codon_aa_counts
      in if total_codons = 0 then None
         else
           let df = map (make_row total_codons) (sort codon_aa_counts)
           in if df = [] then None
              else if min_freq_threshold > 0
                   then Some (filter (\<lambda>r. freq_percent r \<ge> min_freq_threshold) df)
                   else Some df)"

definition calculate_codon_frequency_to_df ::
  "gbff_source \<Rightarrow> rat \<Rightarrow> report_row list option" where
  "calculate_codon_frequency_to_df gbff_file min_freq_threshold =
     (case parse_loop [] gbff_file of
        Inl e \<Rightarrow> None
      | Inr codon_aa_counts \<Rightarrow> build_report codon_aa_counts min_freq_threshold)"

text \<open>
  \<^verbatim>\<open>run_codon_analysis\<close>: \<open>is_file\<close> is the outcome of
  \<^verbatim>\<open>input_file.exists() and input_file.is_file()\<close>. Export and printing do not change
  the returned table.
\<close>

definition run_codon_analysis :: "bool \<Rightarrow> gbff_source \<Rightarrow> bool \<Rightarrow> report_row list option" where
  "run_codon_analysis is_file input_file no_freq_filter =
     (if \<not> is_file then None
      else
        let min_freq_threshold = (if no_freq_filter then 0 else DEFAULT_MIN_FREQ)
        in calculate_codon_frequency_to_df input_file min_freq_threshold)"

section \<open>Notions used in the statements\<close>

text \<open>
  The translation string the feature loop reads, and the features that reach the codon
  loop: CDS features with a non-empty translation, no \<^verbatim>\<open>pseudo\<close> qualifier and only
  A, T, C, G in the upper-cased sequence.
\<close>

definition translation_of :: "feature \<Rightarrow> string" where
  "translation_of f =
     (case qualifier_first (qualifiers f) ''translation'' '''' of Inl e \<Rightarrow> [] | Inr t \<Rightarrow> t)"

definition counted :: "feature \<Rightarrow> bool" where
  "counted f \<longleftrightarrow>
     ftype f = ''CDS'' \<and> translation_of f \<noteq> [] \<and> ''pseudo'' \<notin> dom (qualifiers f) \<and>
     set (upper (extracted f)) \<subseteq> VALID_BASES"

text \<open>
  Biopython's GenBank reader stores every qualifier as a list of at least one value (a
  qualifier without a value is \<^verbatim>\<open>[""]\<close>), so the two \<^verbatim>\<open>[0]\<close> of the feature
  loop cannot raise on a parsed file.
\<close>

definition nonempty_values :: "feature \<Rightarrow> bool" where
  "nonempty_values f \<longleftrightarrow>
     qualifiers f ''locus_tag'' \<noteq> Some [] \<and> qualifiers f ''translation'' \<noteq> Some []"

text \<open>All features the reader yields, in the order the loops visit them.\<close>

definition source_features :: "gbff_source \<Rightarrow> feature list" where
  "source_features src =
     concat (map (\<lambda>ev. case ev of Inl e \<Rightarrow> [] | Inr r \<Rightarrow> features r) src)"

text \<open>The feature cut to its complete codons.\<close>

definition truncate_feature :: "feature \<Rightarrow> feature" where
  "truncate_feature f = f\<lparr>extracted := take (length (extracted f) div 3 * 3) (extracted f)\<rparr>"

text \<open>
  A CDS feature with a per-feature defect that makes the loop skip it: no translation (the
  qualifier is absent or its first value is empty), a \<^verbatim>\<open>pseudo\<close> qualifier, or a base
  other than A, T, C, G. \<open>without_defects\<close> removes these features from a record.
\<close>

definition defective :: "feature \<Rightarrow> bool" where
  "defective f \<longleftrightarrow>
     ftype f = ''CDS'' \<and>
     (translation_of f = [] \<or> ''pseudo'' \<in> dom (qualifiers f) \<or>
      \<not> set (upper (extracted f)) \<subseteq> VALID_BASES)"

definition without_defects :: "seq_record \<Rightarrow> seq_record" where
  "without_defects r = r\<lparr>features := filter (\<lambda>f. \<not> defective f) (features r)\<rparr>"

text \<open>
  The rows before the frequency filter, and the filter of lines 160 to 163.
\<close>

definition all_rows :: "CodonAACounter \<Rightarrow> report_row list" where
  "all_rows c = map (make_row (total_count c)) (sort c)"

definition threshold_filter :: "rat \<Rightarrow> report_row list \<Rightarrow> report_row list" where
  "threshold_filter t rows = (if t > 0 then filter (\<lambda>r. freq_percent r \<ge> t) rows else rows)"

text \<open>
  The keys the codon loop counts for a feature, in order: entry \<open>k\<close> is the codon at
  position index \<open>k\<close> (\<^verbatim>\<open>aa_index\<close>), offset \<open>3 * k\<close>.
\<close>

definition codon_events :: "feature \<Rightarrow> codon_key list" where
  "codon_events f =
     map (codon_event (translation_of f) (upper (extracted f)))
       (range_step3 (length (extracted f) div 3 * 3))"

text \<open>
  The tuple a row is ordered by: its codon, amino acid and role tag.
\<close>

definition row_key :: "report_row \<Rightarrow> codon_key" where
  "row_key r = (codon r, amino_acid r, special_type r)"

section \<open>Concrete inputs\<close>

text \<open>The GenBank file of \<^verbatim>\<open>tests/test_core.py\<close>: one record, one CDS of nine bases.\<close>

definition scenario_feature :: feature where
  "scenario_feature =
     \<lparr> ftype = ''CDS'',
       qualifiers = [''locus_tag'' \<mapsto> [''TEST1''], ''translation'' \<mapsto> [''MGG'']],
       extracted = ''ATGGCTGGT'' \<rparr>"

definition scenario_record :: seq_record where
  "scenario_record = \<lparr> rec_id = ''TEST.1'', features = [scenario_feature] \<rparr>"

text \<open>
  A CDS of ten bases, three codons and one trailing base, and the counter of its three
  codons (the counter of the nine-base scenario too).
\<close>

definition truncated_feature :: feature where
  "truncated_feature =
     \<lparr> ftype = ''CDS'',
       qualifiers = [''locus_tag'' \<mapsto> [''TEST2''], ''translation'' \<mapsto> [''MGG'']],
       extracted = ''ATGGCTGGTA'' \<rparr>"

definition three_codon_counts :: CodonAACounter where
  "three_codon_counts =
     [((''ATG'', ''M'', ''START''), 1), ((''GCT'', ''G'', ''''), 1), ((''GGT'', ''G'', ''''), 1)]"

text \<open>One record with the three kinds of skipped feature around the ten-base CDS.\<close>

definition defect_no_translation :: feature where
  "defect_no_translation =
     \<lparr> ftype = ''CDS'', qualifiers = [''locus_tag'' \<mapsto> [''D1'']], extracted = ''ATGGCT'' \<rparr>"

definition defect_pseudo :: feature where
  "defect_pseudo =
     \<lparr> ftype = ''CDS'',
       qualifiers = [''translation'' \<mapsto> [''MA''], ''pseudo'' \<mapsto> ['''']],
       extracted = ''ATGGCT'' \<rparr>"

definition defect_non_atcg :: feature where
  "defect_non_atcg =
     \<lparr> ftype = ''CDS'', qualifiers = [''translation'' \<mapsto> [''MA'']], extracted = ''ATGNCT'' \<rparr>"

definition defect_record :: seq_record where
  "defect_record =
     \<lparr> rec_id = ''D.1'',
       features = [defect_no_translation, defect_pseudo, truncated_feature, defect_non_atcg] \<rparr>"

text \<open>
  A counter with the frequencies 75 and 25 percent and its two rows, and the rows of
  the nine-base scenario.
\<close>

definition skew_counts :: CodonAACounter where
  "skew_counts = [((''GGT'', ''G'', ''''), 3), ((''ATG'', ''M'', ''START''), 1)]"

definition row_ATG :: report_row where
  "row_ATG = \<lparr>amino_acid = ''M'', codon = ''ATG'', count = 1, freq_percent = 25,
               special_type = ''START''\<rparr>"

definition row_GGT :: report_row where
  "row_GGT = \<lparr>amino_acid = ''G'', codon = ''GGT'', count = 3, freq_percent = 75,
               special_type = ''''\<rparr>"

definition scenario_rows :: "report_row list" where
  "scenario_rows =
     [\<lparr>amino_acid = ''M'', codon = ''ATG'', count = 1, freq_percent = 100 / 3,
        special_type = ''START''\<rparr>,
      \<lparr>amino_acid = ''G'', codon = ''GCT'', count = 1, freq_percent = 100 / 3,
        special_type = ''''\<rparr>,
      \<lparr>amino_acid = ''G'', codon = ''GGT'', count = 1, freq_percent = 100 / 3,
        special_type = ''''\<rparr>]"

text \<open>
  A CDS with a stop codon after its two translated codons, in lower case as in the
  ORIGIN block of a GenBank file.
\<close>

definition stop_feature :: feature where
  "stop_feature =
     \<lparr> ftype = ''CDS'',
       qualifiers = [''locus_tag'' \<mapsto> [''TEST3''], ''translation'' \<mapsto> [''MA'']],
       extracted = ''atggcttaa'' \<rparr>"

definition stop_counts :: CodonAACounter where
  "stop_counts =
     [((''ATG'', ''M'', ''START''), 1), ((''GCT'', ''A'', ''''), 1), ((''TAA'', ''*'', ''STOP''), 1)]"

text \<open>
  A record with two CDS features whose keys enter the counter out of order, and the
  rows of its report.
\<close>

definition mixed_record :: seq_record where
  "mixed_record = \<lparr> rec_id = ''M.1'', features = [stop_feature, scenario_feature] \<rparr>"

definition mixed_rows :: "report_row list" where
  "mixed_rows =
     [\<lparr>amino_acid = ''M'', codon = ''ATG'', count = 2, freq_percent = 100 / 3,
        special_type = ''START''\<rparr>,
      \<lparr>amino_acid = ''A'', codon = ''GCT'', count = 1, freq_percent = 50 / 3,
        special_type = ''''\<rparr>,
      \<lparr>amino_acid = ''G'', codon = ''GCT'', count = 1, freq_percent = 50 / 3,
        special_type = ''''\<rparr>,
      \<lparr>amino_acid = ''G'', codon = ''GGT'', count = 1, freq_percent = 50 / 3,
        special_type = ''''\<rparr>,
      \<lparr>amino_acid = ''*'', codon = ''TAA'', count = 1, freq_percent = 50 / 3,
        special_type = ''STOP''\<rparr>]"

text \<open>
  A CDS with a translation and an empty extracted sequence, and a record whose only
  feature is a pseudogene.
\<close>

definition empty_seq_feature :: feature where
  "empty_seq_feature =
     \<lparr> ftype = ''CDS'', qualifiers = [''translation'' \<mapsto> [''M'']], extracted = '''' \<rparr>"

definition pseudo_record :: seq_record where
  "pseudo_record = \<lparr> rec_id = ''P.1'', features = [defect_pseudo] \<rparr>"

section \<open>Counting\<close>

lemma total_counter_incr: "total_count (counter_incr c k) = total_count c + 1"
  by (induction c k rule: counter_incr.induct) (simp_all add: total_count_def)

lemma keys_counter_incr: "fst ` set (counter_incr c k) = insert k (fst ` set c)"
  by (induction c k rule: counter_incr.induct) auto

lemma total_fold_incr:
  "total_count (fold (\<lambda>x c. counter_incr c (g x)) xs c) = total_count c + length xs"
  by (induction xs arbitrary: c) (simp_all add: total_counter_incr)

lemma length_range_step3: "length (range_step3 (n div 3 * 3)) = n div 3"
  by (simp add: range_step3_def)

lemma total_count_codons:
  "total_count (count_codons c tr s (n div 3 * 3)) = total_count c + n div 3"
  by (simp add: count_codons_def total_fold_incr length_range_step3)

lemma qualifier_first_cases:
  "qualifier_first q k d = Inl e \<longleftrightarrow> e = IndexError \<and> q k = Some []"
  by (auto simp: qualifier_first_def split: option.splits list.splits)

lemma process_feature_Inr:
  assumes "process_feature c f = Inr c'"
  shows "c' = (if counted f
               then count_codons c (translation_of f) (upper (extracted f))
                      (length (extracted f) div 3 * 3)
               else c)"
  using assms
  by (auto simp: process_feature_def counted_def translation_of_def Let_def
      split: if_splits sum.splits)

lemma process_feature_nonempty:
  assumes "nonempty_values f"
  shows "process_feature c f =
           Inr (if counted f
                then count_codons c (translation_of f) (upper (extracted f))
                       (length (extracted f) div 3 * 3)
                else c)"
proof -
  obtain l where l: "qualifier_first (qualifiers f) ''locus_tag'' ''?'' = Inr l"
    using assms by (cases "qualifier_first (qualifiers f) ''locus_tag'' ''?''")
      (auto simp: qualifier_first_cases nonempty_values_def)
  obtain t where t: "qualifier_first (qualifiers f) ''translation'' '''' = Inr t"
    using assms by (cases "qualifier_first (qualifiers f) ''translation'' ''''")
      (auto simp: qualifier_first_cases nonempty_values_def)
  show ?thesis
    by (simp add: process_feature_def counted_def translation_of_def l t Let_def)
qed

lemma total_process_feature:
  assumes "process_feature c f = Inr c'"
  shows "total_count c' = total_count c + (if counted f then length (extracted f) div 3 else 0)"
  using process_feature_Inr [OF assms] by (simp add: total_count_codons)

lemma total_process_features:
  "process_features c fs = Inr c' \<Longrightarrow>
   total_count c' = total_count c + (\<Sum>f\<leftarrow>filter counted fs. length (extracted f) div 3)"
proof (induction fs arbitrary: c)
  case Nil
  then show ?case by simp
next
  case (Cons f fs)
  then obtain c1 where c1: "process_feature c f = Inr c1" and r: "process_features c1 fs = Inr c'"
    by (auto split: sum.splits)
  show ?case
    using total_process_feature [OF c1] Cons.IH [OF r] by simp
qed

lemma total_parse_loop:
  "parse_loop c src = Inr c' \<Longrightarrow>
   total_count c' =
     total_count c + (\<Sum>f\<leftarrow>filter counted (source_features src). length (extracted f) div 3)"
proof (induction c src rule: parse_loop.induct)
  case (1 counts)
  then show ?case by (simp add: source_features_def)
next
  case (2 counts e rest)
  then show ?case by simp
next
  case (3 counts r rest)
  then obtain c1 where c1: "process_features counts (features r) = Inr c1"
    and r: "parse_loop c1 rest = Inr c'"
    by (auto split: sum.splits)
  show ?case
    using total_process_features [OF c1] "3.IH" [OF c1 r]
    by (simp add: source_features_def)
qed

section \<open>The role assignment scenario\<close>

lemma upper_ATGGCTGGT: "upper ''ATGGCTGGT'' = ''ATGGCTGGT''"
  by (simp add: upper_def upper_char_def)

text \<open>
  Claim C1. A single CDS feature whose extracted sequence is ATGGCTGGT and whose
  translation is MGG gives three counter entries of count 1, (ATG, M, START),
  (GCT, G, no tag) and (GGT, G, no tag); the total is 3 and every row has the frequency
  100/3 percent.
\<close>

theorem role_assignment_scenario:
  assumes cds: "ftype f = ''CDS''"
    and tr: "qualifiers f ''translation'' = Some [''MGG'']"
    and np: "qualifiers f ''pseudo'' = None"
    and lt: "qualifiers f ''locus_tag'' \<noteq> Some []"
    and sq: "extracted f = ''ATGGCTGGT''"
    and fs: "features r = [f]"
  shows "parse_loop [] [Inr r] =
           Inr [((''ATG'', ''M'', ''START''), 1),
                ((''GCT'', ''G'', ''''), 1),
                ((''GGT'', ''G'', ''''), 1)] \<and>
         total_count [((''ATG'', ''M'', ''START''), 1),
                      ((''GCT'', ''G'', ''''), 1),
                      ((''GGT'', ''G'', ''''), 1)] = 3 \<and>
         calculate_codon_frequency_to_df [Inr r] 0 =
           Some [\<lparr>amino_acid = ''M'', codon = ''ATG'', count = 1,
                   freq_percent = 100 / 3, special_type = ''START''\<rparr>,
                 \<lparr>amino_acid = ''G'', codon = ''GCT'', count = 1,
                   freq_percent = 100 / 3, special_type = ''''\<rparr>,
                 \<lparr>amino_acid = ''G'', codon = ''GGT'', count = 1,
                   freq_percent = 100 / 3, special_type = ''''\<rparr>]"
proof -
  have ne: "nonempty_values f"
    using tr lt by (simp add: nonempty_values_def)
  have t: "translation_of f = ''MGG''"
    using tr by (simp add: translation_of_def qualifier_first_def)
  have c: "counted f"
    using cds np t sq by (simp add: counted_def upper_ATGGCTGGT VALID_BASES_def dom_def)
  have cc: "count_codons [] ''MGG'' ''ATGGCTGGT'' 9 =
      [((''ATG'', ''M'', ''START''), 1), ((''GCT'', ''G'', ''''), 1), ((''GGT'', ''G'', ''''), 1)]"
    by (simp add: count_codons_def range_step3_def codon_event_def upt_rec)
  have pf: "process_feature [] f =
      Inr [((''ATG'', ''M'', ''START''), 1), ((''GCT'', ''G'', ''''), 1), ((''GGT'', ''G'', ''''), 1)]"
    using process_feature_nonempty [OF ne, of "[]"] c t sq
    by (simp add: upper_ATGGCTGGT cc)
  have pl: "parse_loop [] [Inr r] =
      Inr [((''ATG'', ''M'', ''START''), 1), ((''GCT'', ''G'', ''''), 1), ((''GGT'', ''G'', ''''), 1)]"
    by (simp add: fs pf)
  have br: "build_report
      [((''ATG'', ''M'', ''START''), 1), ((''GCT'', ''G'', ''''), 1), ((''GGT'', ''G'', ''''), 1)] 0 =
     Some [\<lparr>amino_acid = ''M'', codon = ''ATG'', count = 1,
                   freq_percent = 100 / 3, special_type = ''START''\<rparr>,
                 \<lparr>amino_acid = ''G'', codon = ''GCT'', count = 1,
                   freq_percent = 100 / 3, special_type = ''''\<rparr>,
                 \<lparr>amino_acid = ''G'', codon = ''GGT'', count = 1,
                   freq_percent = 100 / 3, special_type = ''''\<rparr>]"
    by (simp add: build_report_def total_count_def make_row_def sort_key_def)
  show ?thesis
  proof (intro conjI)
    show "parse_loop [] [Inr r] =
      Inr [((''ATG'', ''M'', ''START''), 1), ((''GCT'', ''G'', ''''), 1), ((''GGT'', ''G'', ''''), 1)]"
      by (rule pl)
    show "total_count
      [((''ATG'', ''M'', ''START''), 1), ((''GCT'', ''G'', ''''), 1), ((''GGT'', ''G'', ''''), 1)] = 3"
      by (simp add: total_count_def)
    show "calculate_codon_frequency_to_df [Inr r] 0 =
     Some [\<lparr>amino_acid = ''M'', codon = ''ATG'', count = 1,
                   freq_percent = 100 / 3, special_type = ''START''\<rparr>,
                 \<lparr>amino_acid = ''G'', codon = ''GCT'', count = 1,
                   freq_percent = 100 / 3, special_type = ''''\<rparr>,
                 \<lparr>amino_acid = ''G'', codon = ''GGT'', count = 1,
                   freq_percent = 100 / 3, special_type = ''''\<rparr>]"
      by (simp only: calculate_codon_frequency_to_df_def pl sum.case br)
  qed
qed

theorem role_assignment_scenario_witness:
  "ftype scenario_feature = ''CDS'' \<and>
   qualifiers scenario_feature ''translation'' = Some [''MGG''] \<and>
   qualifiers scenario_feature ''pseudo'' = None \<and>
   qualifiers scenario_feature ''locus_tag'' \<noteq> Some [] \<and>
   extracted scenario_feature = ''ATGGCTGGT'' \<and>
   features scenario_record = [scenario_feature] \<and>
   calculate_codon_frequency_to_df [Inr scenario_record] 0 =
           Some [\<lparr>amino_acid = ''M'', codon = ''ATG'', count = 1,
                   freq_percent = 100 / 3, special_type = ''START''\<rparr>,
                 \<lparr>amino_acid = ''G'', codon = ''GCT'', count = 1,
                   freq_percent = 100 / 3, special_type = ''''\<rparr>,
                 \<lparr>amino_acid = ''G'', codon = ''GGT'', count = 1,
                   freq_percent = 100 / 3, special_type = ''''\<rparr>]"
proof -
  have h: "ftype scenario_feature = ''CDS''"
    "qualifiers scenario_feature ''translation'' = Some [''MGG'']"
    "qualifiers scenario_feature ''pseudo'' = None"
    "qualifiers scenario_feature ''locus_tag'' \<noteq> Some []"
    "extracted scenario_feature = ''ATGGCTGGT''"
    "features scenario_record = [scenario_feature]"
    by (simp_all add: scenario_feature_def scenario_record_def)
  from role_assignment_scenario [OF h] h show ?thesis by simp
qed

section \<open>Count conservation and truncation\<close>

lemma set_range_step3: "i \<in> set (range_step3 (m * 3)) \<longleftrightarrow> (\<exists>k<m. i = 3 * k)"
  by (auto simp: range_step3_def)

lemma codon_event_take:
  assumes "i + 3 \<le> n"
  shows "codon_event tr (upper (take n s)) i = codon_event tr (upper s) i"
proof -
  have "take 3 (drop i (take n s)) = take 3 (drop i s)"
    using assms by (simp add: drop_take min_def)
  then have "take 3 (drop i (upper (take n s))) = take 3 (drop i (upper s))"
    by (simp add: upper_def drop_map take_map del: take_map [symmetric])
  then show ?thesis
    by (simp add: codon_event_def)
qed

lemma count_codons_take:
  "count_codons c tr (upper (take (m * 3) s)) (m * 3) = count_codons c tr (upper s) (m * 3)"
  unfolding count_codons_def
  by (rule arg_cong [where f = "\<lambda>g. fold g _ c"] fold_cong [OF refl refl])
     (auto simp: set_range_step3 intro!: codon_event_take arg_cong2 [where f = counter_incr])


lemma valid_bases_take:
  "set (upper s) \<subseteq> VALID_BASES \<Longrightarrow> set (upper (take n s)) \<subseteq> VALID_BASES"
  by (auto simp: upper_def dest: in_set_takeD)

lemma process_feature_truncate:
  assumes "counted f"
  shows "process_feature c (truncate_feature f) = process_feature c f"
proof -
  let ?m = "length (extracted f) div 3"
  have v: "set (upper (extracted f)) \<subseteq> VALID_BASES"
    using assms by (simp add: counted_def)
  have len: "length (take (?m * 3) (extracted f)) div 3 * 3 = ?m * 3"
    by (simp add: min_def)
  show ?thesis
    using v valid_bases_take [OF v, of "?m * 3"]
    by (simp add: process_feature_def truncate_feature_def Let_def len count_codons_take
        del: length_take split: sum.splits)
qed

text \<open>
  Claim C2. When aggregation ends without an exception, the sum of the counter's values
  is the sum, over the features that reach the codon loop, of the length of the
  extracted sequence divided by 3 (rounded down). A counted feature contributes exactly
  that many codons and the bases after its last complete codon change nothing; a counted
  feature of 10 bases contributes 3 codons, those of its first 9 bases.
\<close>

theorem count_conservation:
  "(parse_loop [] src = Inr counts \<longrightarrow>
      total_count counts =
        (\<Sum>f\<leftarrow>filter counted (source_features src). length (extracted f) div 3)) \<and>
   (counted f \<and> process_feature c f = Inr c' \<longrightarrow>
      total_count c' = total_count c + length (extracted f) div 3 \<and>
      process_feature c (truncate_feature f) = Inr c') \<and>
   (counted f \<and> process_feature c f = Inr c' \<and> length (extracted f) = 10 \<longrightarrow>
      total_count c' = total_count c + 3 \<and>
      process_feature c (f\<lparr>extracted := take 9 (extracted f)\<rparr>) = Inr c')"
proof (intro conjI impI)
  assume "parse_loop [] src = Inr counts"
  from total_parse_loop [OF this]
  show "total_count counts =
        (\<Sum>f\<leftarrow>filter counted (source_features src). length (extracted f) div 3)"
    by (simp add: total_count_def)
next
  assume a: "counted f \<and> process_feature c f = Inr c'"
  then show "total_count c' = total_count c + length (extracted f) div 3"
    using total_process_feature [of c f c'] by simp
  from a show "process_feature c (truncate_feature f) = Inr c'"
    by (simp add: process_feature_truncate)
next
  assume a: "counted f \<and> process_feature c f = Inr c' \<and> length (extracted f) = 10"
  then show "total_count c' = total_count c + 3"
    using total_process_feature [of c f c'] by simp
  from a have "truncate_feature f = f\<lparr>extracted := take 9 (extracted f)\<rparr>"
    by (simp add: truncate_feature_def)
  with a show "process_feature c (f\<lparr>extracted := take 9 (extracted f)\<rparr>) = Inr c'"
    using process_feature_truncate [of f c] by simp
qed

theorem count_conservation_witness:
  "parse_loop [] [Inr \<lparr>rec_id = ''T'', features = [truncated_feature]\<rparr>] = Inr three_codon_counts \<and>
   counted truncated_feature \<and>
   process_feature [] truncated_feature = Inr three_codon_counts \<and>
   length (extracted truncated_feature) = 10 \<and>
   total_count three_codon_counts = 3 \<and>
   process_feature [] (truncated_feature\<lparr>extracted := ''ATGGCTGGT''\<rparr>) = Inr three_codon_counts"
proof -
  have pf: "process_feature [] truncated_feature = Inr three_codon_counts"
    unfolding truncated_feature_def three_codon_counts_def by code_simp
  have pl: "parse_loop [] [Inr \<lparr>rec_id = ''T'', features = [truncated_feature]\<rparr>] = Inr three_codon_counts"
    by (simp add: pf)
  have c: "counted truncated_feature"
    unfolding truncated_feature_def by code_simp
  have l: "length (extracted truncated_feature) = 10"
    by (simp add: truncated_feature_def)
  have e: "take 9 (extracted truncated_feature) = ''ATGGCTGGT''"
    by (simp add: truncated_feature_def)
  from count_conservation
    [of "[Inr \<lparr>rec_id = ''T'', features = [truncated_feature]\<rparr>]" three_codon_counts
        truncated_feature "[]" three_codon_counts]
  show ?thesis
    using pf pl c l e by (simp add: total_count_def)
qed

section \<open>Per-feature defects\<close>

lemma defective_not_counted: "defective f \<Longrightarrow> \<not> counted f"
  by (auto simp: defective_def counted_def)

lemma process_feature_defective:
  "nonempty_values f \<Longrightarrow> defective f \<Longrightarrow> process_feature c f = Inr c"
  by (simp add: process_feature_nonempty defective_not_counted)

lemma process_features_without_defects:
  "list_all nonempty_values fs \<Longrightarrow>
   process_features c (filter (\<lambda>f. \<not> defective f) fs) = process_features c fs"
proof (induction fs arbitrary: c)
  case Nil
  then show ?case by simp
next
  case (Cons f fs)
  then show ?case
    by (cases "defective f") (simp_all add: process_feature_defective split: sum.splits)
qed

lemma parse_loop_without_defects:
  "list_all nonempty_values (source_features src) \<Longrightarrow>
   parse_loop c (map (map_sum id without_defects) src) = parse_loop c src"
proof (induction c src rule: parse_loop.induct)
  case (1 counts)
  then show ?case by simp
next
  case (2 counts e rest)
  then show ?case by simp
next
  case (3 counts r rest)
  from "3.prems" have a: "list_all nonempty_values (features r)"
    and b: "list_all nonempty_values (source_features rest)"
    by (simp_all add: source_features_def)
  show ?case
    using "3.IH" b
    by (simp add: without_defects_def process_features_without_defects [OF a] split: sum.splits)
qed

text \<open>
  Claim C3. A defective CDS feature (missing or empty translation, pseudo qualifier,
  non-ATCG base) leaves the counter as it is and the loop goes on with the next
  feature; a feature whose length is not a multiple of 3 is counted as its complete
  codons and the loop goes on; the whole run gives the result it gives on the input
  without the defective features. The qualifier lists are non-empty, as the reader
  delivers them.
\<close>

theorem feature_defects_non_fatal:
  "(nonempty_values f \<and> defective f \<longrightarrow>
      process_feature c f = Inr c \<and>
      process_features c (f # fs) = process_features c fs) \<and>
   (nonempty_values f \<and> counted f \<longrightarrow>
      (\<exists>c'. process_feature c f = Inr c' \<and>
            process_feature c (truncate_feature f) = Inr c' \<and>
            total_count c' = total_count c + length (extracted f) div 3 \<and>
            process_features c (f # fs) = process_features c' fs)) \<and>
   (list_all nonempty_values (source_features src) \<longrightarrow>
      parse_loop [] (map (map_sum id without_defects) src) = parse_loop [] src \<and>
      calculate_codon_frequency_to_df (map (map_sum id without_defects) src) t =
        calculate_codon_frequency_to_df src t)"
proof (intro conjI impI)
  assume a: "nonempty_values f \<and> defective f"
  then show "process_feature c f = Inr c"
    by (simp add: process_feature_defective)
  then show "process_features c (f # fs) = process_features c fs"
    by simp
next
  assume a: "nonempty_values f \<and> counted f"
  then obtain c' where c': "process_feature c f = Inr c'"
    by (simp add: process_feature_nonempty)
  have "process_feature c (truncate_feature f) = Inr c'"
    using a c' by (simp add: process_feature_truncate)
  moreover have "total_count c' = total_count c + length (extracted f) div 3"
    using total_process_feature [OF c'] a by simp
  moreover have "process_features c (f # fs) = process_features c' fs"
    by (simp add: c')
  ultimately show "\<exists>c'. process_feature c f = Inr c' \<and>
            process_feature c (truncate_feature f) = Inr c' \<and>
            total_count c' = total_count c + length (extracted f) div 3 \<and>
            process_features c (f # fs) = process_features c' fs"
    using c' by blast
next
  assume a: "list_all nonempty_values (source_features src)"
  then show "parse_loop [] (map (map_sum id without_defects) src) = parse_loop [] src"
    by (rule parse_loop_without_defects)
  then show "calculate_codon_frequency_to_df (map (map_sum id without_defects) src) t =
        calculate_codon_frequency_to_df src t"
    by (simp add: calculate_codon_frequency_to_df_def)
qed

theorem feature_defects_non_fatal_witness:
  "nonempty_values defect_no_translation \<and> defective defect_no_translation \<and>
   process_feature three_codon_counts defect_no_translation = Inr three_codon_counts \<and>
   nonempty_values defect_pseudo \<and> defective defect_pseudo \<and>
   process_feature three_codon_counts defect_pseudo = Inr three_codon_counts \<and>
   nonempty_values defect_non_atcg \<and> defective defect_non_atcg \<and>
   process_feature three_codon_counts defect_non_atcg = Inr three_codon_counts \<and>
   nonempty_values truncated_feature \<and> counted truncated_feature \<and>
   process_feature [] (truncate_feature truncated_feature) = Inr three_codon_counts \<and>
   list_all nonempty_values (source_features [Inr defect_record]) \<and>
   parse_loop [] [Inr defect_record] = Inr three_codon_counts"
proof -
  have n: "nonempty_values defect_no_translation" "nonempty_values defect_pseudo"
    "nonempty_values defect_non_atcg" "nonempty_values truncated_feature"
    by (simp_all add: nonempty_values_def defect_no_translation_def defect_pseudo_def
        defect_non_atcg_def truncated_feature_def)
  have d1: "defective defect_no_translation"
    unfolding defect_no_translation_def by code_simp
  have d2: "defective defect_pseudo"
    unfolding defect_pseudo_def by code_simp
  have d3: "defective defect_non_atcg"
    unfolding defect_non_atcg_def by code_simp
  have c: "counted truncated_feature"
    unfolding truncated_feature_def by code_simp
  have nd: "\<not> defective truncated_feature"
    using c defective_not_counted by blast
  have pf: "process_feature [] truncated_feature = Inr three_codon_counts"
    unfolding truncated_feature_def three_codon_counts_def by code_simp
  have all: "list_all nonempty_values (source_features [Inr defect_record])"
    using n by (simp add: source_features_def defect_record_def)
  have w: "map (map_sum id without_defects) [Inr defect_record] =
      [Inr (defect_record\<lparr>features := [truncated_feature]\<rparr>)]"
    using d1 d2 d3 nd by (simp add: without_defects_def defect_record_def)
  have pl: "parse_loop [] [Inr (defect_record\<lparr>features := [truncated_feature]\<rparr>)] =
      Inr three_codon_counts"
    by (simp add: pf)
  note t1 = feature_defects_non_fatal [of defect_no_translation three_codon_counts "[]"
      "[Inr defect_record]" 0]
  note t2 = feature_defects_non_fatal [of defect_pseudo three_codon_counts "[]"
      "[Inr defect_record]" 0]
  note t3 = feature_defects_non_fatal [of defect_non_atcg three_codon_counts "[]"
      "[Inr defect_record]" 0]
  note t4 = feature_defects_non_fatal [of truncated_feature "[]" "[]" "[Inr defect_record]" 0]
  have r1: "process_feature three_codon_counts defect_no_translation = Inr three_codon_counts"
    using t1 n d1 by simp
  have r2: "process_feature three_codon_counts defect_pseudo = Inr three_codon_counts"
    using t2 n d2 by simp
  have r3: "process_feature three_codon_counts defect_non_atcg = Inr three_codon_counts"
    using t3 n d3 by simp
  have r4: "process_feature [] (truncate_feature truncated_feature) = Inr three_codon_counts"
    using t4 n c pf by auto
  have r5: "parse_loop [] [Inr defect_record] = Inr three_codon_counts"
    using t4 all w pl by simp
  show ?thesis
    using n d1 d2 d3 c all r1 r2 r3 r4 r5 by blast
qed

section \<open>The report\<close>

lemma total_count_pos_nonempty: "total_count c \<noteq> 0 \<Longrightarrow> sort c \<noteq> []"
  by (cases c) (auto simp: total_count_def)

lemma build_report_eq:
  "build_report c t =
     (if total_count c = 0 then None else Some (threshold_filter t (all_rows c)))"
  by (simp add: build_report_def all_rows_def threshold_filter_def Let_def
      total_count_pos_nonempty)

lemma sum_list_insort_key:
  "sum_list (map g (insort_key f x xs)) = g x + sum_list (map g xs)"
  for g :: "'a \<Rightarrow> 'b::comm_monoid_add"
  by (induction xs) (simp_all add: add.left_commute)

lemma sum_list_sort_key:
  "sum_list (map g (sort_key f xs)) = sum_list (map g xs)"
  for g :: "'a \<Rightarrow> 'b::comm_monoid_add"
  by (induction xs) (simp_all add: sum_list_insort_key)

lemma total_count_sort: "total_count (sort c) = total_count c"
  by (simp add: total_count_def sum_list_sort_key)

lemma freq_percent_make_row:
  "freq_percent (make_row T (k, n)) = of_nat n / of_nat T * 100"
  by (cases k) (simp add: make_row_def)

lemma count_make_row: "count (make_row T (k, n)) = n"
  by (cases k) (simp add: make_row_def)

lemma count_all_rows: "map count (all_rows c) = map snd (sort c)"
  by (auto simp: all_rows_def count_make_row)

lemma sum_count_all_rows: "sum_list (map count (all_rows c)) = total_count c"
  using total_count_sort [of c] by (simp add: count_all_rows total_count_def)

lemma freq_all_rows:
  "map freq_percent (all_rows c) =
     map (\<lambda>n. of_nat n / of_nat (total_count c) * 100) (map snd (sort c))"
  by (auto simp: all_rows_def freq_percent_make_row)

lemma sum_list_scaled:
  "sum_list (map (\<lambda>n. of_nat n / d * (100 :: rat)) ns) = of_nat (sum_list ns) / d * 100"
  by (induction ns) (simp_all add: add_divide_distrib distrib_right)

lemma sum_freq_all_rows:
  assumes "total_count c \<noteq> 0"
  shows "sum_list (map freq_percent (all_rows c)) = 100"
proof -
  have "sum_list (map freq_percent (all_rows c)) =
      of_nat (sum_list (map snd (sort c))) / of_nat (total_count c) * 100"
    by (simp only: freq_all_rows sum_list_scaled)
  also have "sum_list (map snd (sort c)) = total_count c"
    using total_count_sort [of c] by (simp add: total_count_def)
  finally show ?thesis
    using assms by simp
qed

lemma row_in_all_rows:
  assumes "r \<in> set (all_rows c)"
  shows "\<exists>k n. (k, n) \<in> set c \<and> r = make_row (total_count c) (k, n)"
  using assms by (auto simp: all_rows_def)

lemma snd_le_total_count: "(k, n) \<in> set c \<Longrightarrow> n \<le> total_count c"
  by (induction c) (auto simp: total_count_def)

lemma freq_bounds_all_rows:
  assumes "r \<in> set (all_rows c)" and "total_count c \<noteq> 0"
  shows "0 \<le> freq_percent r \<and> freq_percent r \<le> 100"
proof -
  obtain k n where kn: "(k, n) \<in> set c" and r: "r = make_row (total_count c) (k, n)"
    using row_in_all_rows [OF assms(1)] by blast
  have le: "n \<le> total_count c"
    by (rule snd_le_total_count [OF kn])
  have pos: "(0 :: rat) < of_nat (total_count c)"
    using assms(2) by simp
  have "(of_nat n :: rat) \<le> of_nat (total_count c)"
    using le by simp
  then have "(of_nat n :: rat) / of_nat (total_count c) \<le> 1"
    using pos by (simp add: divide_le_eq_1)
  then have "(of_nat n :: rat) / of_nat (total_count c) * 100 \<le> 1 * 100"
    by (rule mult_right_mono) simp
  moreover have "(0 :: rat) \<le> of_nat n / of_nat (total_count c) * 100"
    by simp
  ultimately show ?thesis
    by (simp add: r freq_percent_make_row)
qed

lemma calculate_Some_build_report:
  "calculate_codon_frequency_to_df src t = Some rows \<Longrightarrow>
   \<exists>c. parse_loop [] src = Inr c \<and> build_report c t = Some rows"
  by (auto simp: calculate_codon_frequency_to_df_def split: sum.splits)

lemma build_report_0_Some:
  "build_report c 0 = Some rows \<Longrightarrow> total_count c \<noteq> 0 \<and> rows = all_rows c"
  by (auto simp: build_report_eq threshold_filter_def split: if_splits)

lemma build_report_skew_0: "build_report skew_counts 0 = Some [row_ATG, row_GGT]"
  unfolding skew_counts_def row_ATG_def row_GGT_def by code_simp

lemma build_report_skew_20: "build_report skew_counts 20 = Some [row_ATG, row_GGT]"
  unfolding skew_counts_def row_ATG_def row_GGT_def by code_simp

lemma build_report_skew_50: "build_report skew_counts 50 = Some [row_GGT]"
  unfolding skew_counts_def row_ATG_def row_GGT_def by code_simp

lemma calculate_scenario_0:
  "calculate_codon_frequency_to_df [Inr scenario_record] 0 = Some scenario_rows"
  unfolding scenario_record_def scenario_feature_def scenario_rows_def by code_simp

text \<open>
  Claim C5. In a report built with threshold 0 every frequency lies between 0 and 100,
  is the row's count divided by the sum of all counts, times 100, and the frequencies
  add up to 100 (in exact arithmetic).
\<close>

theorem frequency_normalization:
  "build_report counts 0 = Some rows \<or> calculate_codon_frequency_to_df src 0 = Some rows \<longrightarrow>
     (\<forall>r\<in>set rows.
        0 \<le> freq_percent r \<and> freq_percent r \<le> 100 \<and>
        freq_percent r = of_nat (count r) / of_nat (sum_list (map count rows)) * 100) \<and>
     sum_list (map freq_percent rows) = 100"
proof
  assume "build_report counts 0 = Some rows \<or>
    calculate_codon_frequency_to_df src 0 = Some rows"
  then obtain c where "build_report c 0 = Some rows"
    using calculate_Some_build_report by blast
  then have T: "total_count c \<noteq> 0" and rows: "rows = all_rows c"
    using build_report_0_Some by blast+
  have "freq_percent r = of_nat (count r) / of_nat (sum_list (map count rows)) * 100"
    if r: "r \<in> set rows" for r
  proof -
    obtain k n where "r = make_row (total_count c) (k, n)"
      using r row_in_all_rows [of r c] unfolding rows by blast
    then show ?thesis
      by (simp add: rows sum_count_all_rows freq_percent_make_row count_make_row)
  qed
  then show "(\<forall>r\<in>set rows.
        0 \<le> freq_percent r \<and> freq_percent r \<le> 100 \<and>
        freq_percent r = of_nat (count r) / of_nat (sum_list (map count rows)) * 100) \<and>
     sum_list (map freq_percent rows) = 100"
    using freq_bounds_all_rows [OF _ T] sum_freq_all_rows [OF T] unfolding rows by blast
qed

theorem frequency_normalization_witness:
  "build_report skew_counts 0 = Some [row_ATG, row_GGT] \<and>
   freq_percent row_ATG = 25 \<and> freq_percent row_GGT = 75 \<and>
   sum_list (map freq_percent [row_ATG, row_GGT]) = 100"
  using frequency_normalization [of skew_counts "[row_ATG, row_GGT]" "[]"] build_report_skew_0
  by (simp add: row_ATG_def row_GGT_def)

text \<open>
  Claim C6. For thresholds \<open>0 \<le> t1 \<le> t2\<close> the rows of the report at \<open>t2\<close> are among
  the rows of the report at \<open>t1\<close>; the report is absent at one threshold exactly when it
  is absent at the other.
\<close>

theorem filter_monotonicity:
  "(0 \<le> t1 \<and> t1 \<le> t2 \<and>
    build_report counts t1 = Some rows1 \<and> build_report counts t2 = Some rows2
      \<longrightarrow> set rows2 \<subseteq> set rows1) \<and>
   (build_report counts t1 = None \<longleftrightarrow> build_report counts t2 = None)"
  by (auto simp: build_report_eq threshold_filter_def split: if_splits)

theorem filter_monotonicity_witness:
  "(0 :: rat) \<le> 20 \<and> (20 :: rat) \<le> 50 \<and>
   build_report skew_counts 20 = Some [row_ATG, row_GGT] \<and>
   build_report skew_counts 50 = Some [row_GGT] \<and>
   set [row_GGT] \<subseteq> set [row_ATG, row_GGT]"
  using filter_monotonicity [of 20 50 skew_counts "[row_ATG, row_GGT]" "[row_GGT]"]
    build_report_skew_20 build_report_skew_50
  by simp

text \<open>
  Claim C8. With a threshold above 0 the report holds exactly the rows of the unfiltered
  report whose frequency reaches the threshold, and it stays present, also when no row
  is left. Without \<^verbatim>\<open>no_freq_filter\<close> the threshold is \<^verbatim>\<open>DEFAULT_MIN_FREQ\<close>, which
  is 0.05 percentage points.
\<close>

theorem threshold_filter_retains:
  "(0 < t \<and> build_report counts 0 = Some rows \<longrightarrow>
      build_report counts t = Some (filter (\<lambda>r. freq_percent r \<ge> t) rows)) \<and>
   (0 < t \<and> calculate_codon_frequency_to_df src 0 = Some rows \<longrightarrow>
      calculate_codon_frequency_to_df src t = Some (filter (\<lambda>r. freq_percent r \<ge> t) rows)) \<and>
   run_codon_analysis True src False = calculate_codon_frequency_to_df src DEFAULT_MIN_FREQ \<and>
   DEFAULT_MIN_FREQ = 5 / 100"
proof (intro conjI impI)
  assume "0 < t \<and> build_report counts 0 = Some rows"
  then show "build_report counts t = Some (filter (\<lambda>r. freq_percent r \<ge> t) rows)"
    by (auto simp: build_report_eq threshold_filter_def split: if_splits)
next
  assume a: "0 < t \<and> calculate_codon_frequency_to_df src 0 = Some rows"
  then obtain c where c: "parse_loop [] src = Inr c" and b: "build_report c 0 = Some rows"
    using calculate_Some_build_report by blast
  from a b have "build_report c t = Some (filter (\<lambda>r. freq_percent r \<ge> t) rows)"
    by (auto simp: build_report_eq threshold_filter_def split: if_splits)
  then show "calculate_codon_frequency_to_df src t =
      Some (filter (\<lambda>r. freq_percent r \<ge> t) rows)"
    by (simp add: calculate_codon_frequency_to_df_def c)
next
  show "run_codon_analysis True src False = calculate_codon_frequency_to_df src DEFAULT_MIN_FREQ"
    by (simp add: run_codon_analysis_def)
  show "DEFAULT_MIN_FREQ = 5 / 100"
    by (simp add: DEFAULT_MIN_FREQ_def)
qed

theorem threshold_filter_retains_witness:
  "(0 :: rat) < 50 \<and> build_report skew_counts 0 = Some [row_ATG, row_GGT] \<and>
   build_report skew_counts 50 = Some [row_GGT] \<and>
   build_report skew_counts 80 = Some [] \<and>
   calculate_codon_frequency_to_df [Inr scenario_record] 0 = Some scenario_rows \<and>
   calculate_codon_frequency_to_df [Inr scenario_record] 50 = Some []"
proof -
  have a: "build_report skew_counts 50 = Some [row_GGT]"
    using threshold_filter_retains [of 50 skew_counts "[row_ATG, row_GGT]" "[]"]
      build_report_skew_0
    by (simp add: row_ATG_def row_GGT_def)
  have b: "build_report skew_counts 80 = Some []"
    using threshold_filter_retains [of 80 skew_counts "[row_ATG, row_GGT]" "[]"]
      build_report_skew_0
    by (simp add: row_ATG_def row_GGT_def)
  have c: "calculate_codon_frequency_to_df [Inr scenario_record] 50 = Some []"
    using threshold_filter_retains [of 50 "[]" scenario_rows "[Inr scenario_record]"]
      calculate_scenario_0
    by (simp add: scenario_rows_def)
  show ?thesis
    using a b c calculate_scenario_0 build_report_skew_0 by simp
qed

section \<open>The counted codon events\<close>

lemma keys_fold_incr:
  "fst ` set (fold (\<lambda>x c. counter_incr c (g x)) xs c) = fst ` set c \<union> g ` set xs"
  by (induction xs arbitrary: c) (auto simp: keys_counter_incr)

lemma count_codons_events:
  "count_codons c (translation_of f) (upper (extracted f)) (length (extracted f) div 3 * 3) =
     fold (\<lambda>e c. counter_incr c e) (codon_events f) c"
  by (simp add: count_codons_def codon_events_def fold_map comp_def)

lemma process_feature_events:
  assumes "process_feature c f = Inr c'"
  shows "c' = fold (\<lambda>e c. counter_incr c e) (if counted f then codon_events f else []) c"
  using process_feature_Inr [OF assms] by (simp add: count_codons_events)

lemma keys_process_feature:
  assumes "process_feature c f = Inr c'"
  shows "fst ` set c' = fst ` set c \<union> (if counted f then set (codon_events f) else {})"
  using keys_fold_incr [of "\<lambda>e. e" _ c] process_feature_events [OF assms] by simp

lemma keys_process_features:
  "process_features c fs = Inr c' \<Longrightarrow>
   fst ` set c' = fst ` set c \<union> (\<Union>f\<in>set (filter counted fs). set (codon_events f))"
proof (induction fs arbitrary: c)
  case Nil
  then show ?case by simp
next
  case (Cons f fs)
  then obtain c1 where c1: "process_feature c f = Inr c1" and r: "process_features c1 fs = Inr c'"
    by (auto split: sum.splits)
  show ?case
    using keys_process_feature [OF c1] Cons.IH [OF r] by auto
qed

lemma keys_parse_loop:
  "parse_loop c src = Inr c' \<Longrightarrow>
   fst ` set c' =
     fst ` set c \<union> (\<Union>f\<in>set (filter counted (source_features src)). set (codon_events f))"
proof (induction c src rule: parse_loop.induct)
  case (1 counts)
  then show ?case by (simp add: source_features_def)
next
  case (2 counts e rest)
  then show ?case by simp
next
  case (3 counts r rest)
  then obtain c1 where c1: "process_features counts (features r) = Inr c1"
    and r: "parse_loop c1 rest = Inr c'"
    by (auto split: sum.splits)
  show ?case
    using keys_process_features [OF c1] "3.IH" [OF c1 r]
    by (auto simp: source_features_def)
qed

lemma length_codon_events: "length (codon_events f) = length (extracted f) div 3"
  by (simp add: codon_events_def length_range_step3)

lemma nth_codon_events:
  assumes "k < length (extracted f) div 3"
  shows "codon_events f ! k = codon_event (translation_of f) (upper (extracted f)) (3 * k)"
proof -
  have "(length (extracted f) div 3 * 3 + 2) div 3 = length (extracted f) div 3"
    by simp
  then show ?thesis
    using assms by (simp add: codon_events_def range_step3_def)
qed

lemma codon_in_sequence:
  assumes "k < length s div 3"
  shows "length (take 3 (drop (3 * k) (upper s))) = 3"
    and "set (take 3 (drop (3 * k) (upper s))) \<subseteq> set (upper s)"
proof -
  have "3 * k + 3 \<le> length s"
    using assms by simp
  then show "length (take 3 (drop (3 * k) (upper s))) = 3"
    by (simp add: upper_def)
  show "set (take 3 (drop (3 * k) (upper s))) \<subseteq> set (upper s)"
    by (meson set_take_subset set_drop_subset subset_trans)
qed

lemma codon_event_invariant:
  assumes c: "counted f" and k: "k < length (codon_events f)"
    and e: "codon_events f ! k = (cod, aa, st)"
  shows "length cod = 3 \<and> set cod \<subseteq> VALID_BASES \<and>
         cod = take 3 (drop (3 * k) (upper (extracted f))) \<and>
         (st = ''START'' \<longrightarrow> k = 0) \<and>
         (st = ''STOP'' \<longrightarrow> length (translation_of f) \<le> k \<and> aa = ''*'')"
proof -
  have k': "k < length (extracted f) div 3"
    using k by (simp add: length_codon_events)
  have ev: "codon_event (translation_of f) (upper (extracted f)) (3 * k) = (cod, aa, st)"
    using nth_codon_events [OF k'] e by simp
  have cod: "cod = take 3 (drop (3 * k) (upper (extracted f)))"
    using ev by (auto simp: codon_event_def Let_def split: if_splits)
  have v: "set (upper (extracted f)) \<subseteq> VALID_BASES"
    using c by (simp add: counted_def)
  have "length cod = 3" "set cod \<subseteq> VALID_BASES"
    using codon_in_sequence [OF k'] v unfolding cod by auto
  moreover have "st = ''START'' \<longrightarrow> k = 0"
    using ev by (auto simp: codon_event_def Let_def split: if_splits)
  moreover have "st = ''STOP'' \<longrightarrow> length (translation_of f) \<le> k \<and> aa = ''*''"
    using ev by (auto simp: codon_event_def Let_def split: if_splits)
  ultimately show ?thesis
    using cod by blast
qed

lemma counted_stop_feature: "counted stop_feature"
  unfolding stop_feature_def by code_simp

lemma codon_events_stop_feature:
  "codon_events stop_feature =
     [(''ATG'', ''M'', ''START''), (''GCT'', ''A'', ''''), (''TAA'', ''*'', ''STOP'')]"
  unfolding stop_feature_def by code_simp

lemma parse_loop_stop_feature:
  "parse_loop [] [Inr \<lparr>rec_id = ''S'', features = [stop_feature]\<rparr>] = Inr stop_counts"
  unfolding stop_feature_def stop_counts_def by code_simp

text \<open>
  Claim C9. The codon counted at position index \<open>k\<close> of a feature has three characters,
  all in A, T, C, G; it is tagged START only at \<open>k = 0\<close>, and STOP only when \<open>k\<close> is at or
  beyond the length of the translation, with amino acid \<open>*\<close>. The feature loop counts
  exactly these events, and the keys of the final counter are exactly the events of the
  counted features.
\<close>

theorem codon_event_roles:
  "(counted f \<and> k < length (codon_events f) \<and> codon_events f ! k = (cod, aa, st) \<longrightarrow>
      length cod = 3 \<and> set cod \<subseteq> VALID_BASES \<and>
      cod = take 3 (drop (3 * k) (upper (extracted f))) \<and>
      (st = ''START'' \<longrightarrow> k = 0) \<and>
      (st = ''STOP'' \<longrightarrow> length (translation_of f) \<le> k \<and> aa = ''*'')) \<and>
   (process_feature c f = Inr c' \<longrightarrow>
      c' = fold (\<lambda>e c. counter_incr c e) (if counted f then codon_events f else []) c) \<and>
   (parse_loop [] src = Inr counts \<longrightarrow>
      fst ` set counts =
        (\<Union>f\<in>set (filter counted (source_features src)). set (codon_events f)))"
proof (intro conjI impI)
  assume "process_feature c f = Inr c'"
  then show "c' = fold (\<lambda>e c. counter_incr c e) (if counted f then codon_events f else []) c"
    by (rule process_feature_events)
next
  assume "parse_loop [] src = Inr counts"
  from keys_parse_loop [OF this]
  show "fst ` set counts =
        (\<Union>f\<in>set (filter counted (source_features src)). set (codon_events f))"
    by simp
next
  assume a: "counted f \<and> k < length (codon_events f) \<and> codon_events f ! k = (cod, aa, st)"
  then have *: "length cod = 3 \<and> set cod \<subseteq> VALID_BASES \<and>
         cod = take 3 (drop (3 * k) (upper (extracted f))) \<and>
         (st = ''START'' \<longrightarrow> k = 0) \<and>
         (st = ''STOP'' \<longrightarrow> length (translation_of f) \<le> k \<and> aa = ''*'')"
    using codon_event_invariant [of f k cod aa st] by blast
  from * show "length cod = 3" by blast
  from * show "set cod \<subseteq> VALID_BASES" by blast
  from * show "cod = take 3 (drop (3 * k) (upper (extracted f)))" by blast
  { assume "st = ''START''" with * show "k = 0" by blast }
  { assume "st = ''STOP''" with * show "length (translation_of f) \<le> k" by blast }
  { assume "st = ''STOP''" with * show "aa = ''*''" by blast }
qed

theorem codon_event_roles_witness:
  "counted stop_feature \<and> (2 :: nat) < length (codon_events stop_feature) \<and>
   codon_events stop_feature ! 2 = (''TAA'', ''*'', ''STOP'') \<and>
   length ''TAA'' = 3 \<and> set ''TAA'' \<subseteq> VALID_BASES \<and>
   length (translation_of stop_feature) \<le> 2 \<and>
   process_feature [] stop_feature = Inr stop_counts \<and>
   parse_loop [] [Inr \<lparr>rec_id = ''S'', features = [stop_feature]\<rparr>] = Inr stop_counts \<and>
   fst ` set stop_counts = set (codon_events stop_feature)"
proof -
  have pf: "process_feature [] stop_feature = Inr stop_counts"
    using parse_loop_stop_feature by (simp split: sum.splits)
  have sf: "source_features [Inr \<lparr>rec_id = ''S'', features = [stop_feature]\<rparr>] = [stop_feature]"
    by (simp add: source_features_def)
  note t = codon_event_roles [of stop_feature 2 "''TAA''" "''*''" "''STOP''" "[]" stop_counts
      "[Inr \<lparr>rec_id = ''S'', features = [stop_feature]\<rparr>]" stop_counts]
  have k: "(2 :: nat) < length (codon_events stop_feature)"
    "codon_events stop_feature ! 2 = (''TAA'', ''*'', ''STOP'')"
    by (simp_all add: codon_events_stop_feature)
  from t k counted_stop_feature
  have a: "length ''TAA'' = 3 \<and> set ''TAA'' \<subseteq> VALID_BASES \<and>
      length (translation_of stop_feature) \<le> 2"
    by blast
  from t parse_loop_stop_feature
  have "fst ` set stop_counts =
      (\<Union>f\<in>set (filter counted
         (source_features [Inr \<lparr>rec_id = ''S'', features = [stop_feature]\<rparr>])).
         set (codon_events f))"
    by blast
  then have b: "fst ` set stop_counts = set (codon_events stop_feature)"
    by (simp add: sf counted_stop_feature)
  from a b k counted_stop_feature pf parse_loop_stop_feature
  show ?thesis by blast
qed

section \<open>Row order\<close>

lemma codon_event_stop:
  "codon_event tr s i = (cod, aa, st) \<Longrightarrow> st = ''STOP'' \<Longrightarrow> aa = ''*''"
  by (auto simp: codon_event_def Let_def split: if_splits)

lemma codon_events_stop:
  "(cod, aa, st) \<in> set (codon_events f) \<Longrightarrow> st = ''STOP'' \<Longrightarrow> aa = ''*''"
  by (auto simp: codon_events_def dest: codon_event_stop [OF sym])

lemma parse_loop_stop_star:
  assumes "parse_loop [] src = Inr counts" and "((cod, aa, st), n) \<in> set counts"
    and "st = ''STOP''"
  shows "aa = ''*''"
proof -
  have "(cod, aa, st) \<in> fst ` set counts"
    using assms(2) by force
  then obtain f where "(cod, aa, st) \<in> set (codon_events f)"
    using keys_parse_loop [OF assms(1)] by auto
  then show ?thesis
    using assms(3) by (rule codon_events_stop)
qed

lemma row_key_make_row:
  "(st = ''STOP'' \<longrightarrow> aa = ''*'') \<Longrightarrow> row_key (make_row T ((cod, aa, st), n)) = (cod, aa, st)"
  by (auto simp: row_key_def make_row_def)

lemma row_keys_all_rows:
  assumes "\<And>cod aa st n. ((cod, aa, st), n) \<in> set c \<Longrightarrow> st = ''STOP'' \<Longrightarrow> aa = ''*''"
  shows "map row_key (all_rows c) = map fst (sort c)"
  unfolding all_rows_def map_map
proof (rule map_cong [OF refl])
  fix x assume "x \<in> set (sort c)"
  then have x: "x \<in> set c" by simp
  obtain cod aa st n where e: "x = ((cod, aa, st), n)"
    by (metis prod.exhaust)
  have "st = ''STOP'' \<longrightarrow> aa = ''*''"
    using assms [of cod aa st n] x e by blast
  then show "(row_key \<circ> make_row (total_count c)) x = fst x"
    by (simp add: e row_key_make_row)
qed

lemma sorted_keys_sort: "sorted (map fst (sort c))"
  for c :: "('a::linorder \<times> 'b::linorder) list"
proof -
  have "sorted (sort c)" by simp
  then have "sorted_wrt (\<lambda>x y. fst x \<le> fst y) (sort c)"
    by (rule sorted_wrt_mono_rel [rotated]) (auto simp: less_eq_prod_def)
  then show ?thesis
    by (simp add: sorted_map)
qed

lemma distinct_keys_counter_incr:
  "distinct (map fst c) \<Longrightarrow> distinct (map fst (counter_incr c k))"
proof (induction c k rule: counter_incr.induct)
  case (1 k)
  then show ?case by simp
next
  case (2 k' n rest k)
  then show ?case
    using keys_counter_incr [of rest k] by (auto simp: image_iff)
qed

lemma distinct_keys_fold:
  "distinct (map fst c) \<Longrightarrow> distinct (map fst (fold (\<lambda>e c. counter_incr c e) es c))"
  by (induction es arbitrary: c) (simp_all add: distinct_keys_counter_incr)

lemma distinct_keys_process_feature:
  "process_feature c f = Inr c' \<Longrightarrow> distinct (map fst c) \<Longrightarrow> distinct (map fst c')"
  using process_feature_events [of c f c'] by (simp add: distinct_keys_fold)

lemma distinct_keys_process_features:
  "process_features c fs = Inr c' \<Longrightarrow> distinct (map fst c) \<Longrightarrow> distinct (map fst c')"
proof (induction fs arbitrary: c)
  case Nil
  then show ?case by simp
next
  case (Cons f fs)
  then obtain c1 where c1: "process_feature c f = Inr c1" and r: "process_features c1 fs = Inr c'"
    by (auto split: sum.splits)
  show ?case
    using Cons.IH [OF r] distinct_keys_process_feature [OF c1 Cons.prems(2)] by simp
qed

lemma distinct_keys_parse_loop:
  "parse_loop c src = Inr c' \<Longrightarrow> distinct (map fst c) \<Longrightarrow> distinct (map fst c')"
proof (induction c src rule: parse_loop.induct)
  case (1 counts)
  then show ?case by simp
next
  case (2 counts e rest)
  then show ?case by simp
next
  case (3 counts r rest)
  then obtain c1 where c1: "process_features counts (features r) = Inr c1"
    and r: "parse_loop c1 rest = Inr c'"
    by (auto split: sum.splits)
  show ?case
    using "3.IH" [OF c1 r] distinct_keys_process_features [OF c1 "3.prems"(2)] by simp
qed

lemma distinct_keys_sort: "distinct (map fst (sort c)) = distinct (map fst c)"
  by (simp add: distinct_map)

lemma strict_sorted_rows:
  assumes "parse_loop [] src = Inr counts"
  shows "sorted_wrt (<) (map row_key (all_rows counts))"
proof -
  have k: "map row_key (all_rows counts) = map fst (sort counts)"
    by (rule row_keys_all_rows) (rule parse_loop_stop_star [OF assms])
  have "distinct (map fst counts)"
    using distinct_keys_parse_loop [OF assms] by simp
  then have "distinct (map fst (sort counts))"
    by (simp add: distinct_keys_sort)
  then show ?thesis
    unfolding k using sorted_keys_sort [of counts] by (simp add: strict_sorted_iff)
qed


lemma strict_sorted_threshold_filter:
  "sorted_wrt (<) (map row_key rows) \<Longrightarrow> sorted_wrt (<) (map row_key (threshold_filter t rows))"
  by (simp add: threshold_filter_def sorted_wrt_map sorted_wrt_filter)

lemma calculate_mixed_0:
  "calculate_codon_frequency_to_df [Inr mixed_record] 0 = Some mixed_rows"
  unfolding mixed_record_def stop_feature_def scenario_feature_def mixed_rows_def by code_simp

lemma calculate_mixed_17:
  "calculate_codon_frequency_to_df [Inr mixed_record] 17 = Some (take 1 mixed_rows)"
  unfolding mixed_record_def stop_feature_def scenario_feature_def mixed_rows_def by code_simp

text \<open>
  Claim C7. The rows of every report are in ascending lexicographic order of (codon,
  amino acid, role tag), strictly so, since no two rows share a key. The amino acid of
  a row is the aggregated one: the keys of the unfiltered rows are the sorted keys of
  the counter. The frequency filter only removes rows of the unfiltered report.
\<close>

theorem report_sorted:
  "calculate_codon_frequency_to_df src t = Some rows \<longrightarrow>
     sorted (map row_key rows) \<and> sorted_wrt (<) (map row_key rows) \<and>
     (\<exists>counts rows0.
        parse_loop [] src = Inr counts \<and>
        calculate_codon_frequency_to_df src 0 = Some rows0 \<and>
        map row_key rows0 = map fst (sort counts) \<and>
        rows = threshold_filter t rows0)"
proof
  assume "calculate_codon_frequency_to_df src t = Some rows"
  then obtain c where c: "parse_loop [] src = Inr c" and b: "build_report c t = Some rows"
    using calculate_Some_build_report by blast
  from b have T: "total_count c \<noteq> 0" and rows: "rows = threshold_filter t (all_rows c)"
    by (auto simp: build_report_eq split: if_splits)
  have r0: "calculate_codon_frequency_to_df src 0 = Some (all_rows c)"
    using T by (simp add: calculate_codon_frequency_to_df_def c build_report_eq
        threshold_filter_def)
  have k: "map row_key (all_rows c) = map fst (sort c)"
    by (rule row_keys_all_rows) (rule parse_loop_stop_star [OF c])
  have s: "sorted_wrt (<) (map row_key rows)"
    unfolding rows by (rule strict_sorted_threshold_filter) (rule strict_sorted_rows [OF c])
  then have "sorted (map row_key rows)"
    by (simp add: strict_sorted_iff)
  with s c r0 k rows
  show "sorted (map row_key rows) \<and> sorted_wrt (<) (map row_key rows) \<and>
     (\<exists>counts rows0.
        parse_loop [] src = Inr counts \<and>
        calculate_codon_frequency_to_df src 0 = Some rows0 \<and>
        map row_key rows0 = map fst (sort counts) \<and>
        rows = threshold_filter t rows0)"
    by blast
qed

theorem report_sorted_witness:
  "calculate_codon_frequency_to_df [Inr mixed_record] 0 = Some mixed_rows \<and>
   map row_key mixed_rows =
     [(''ATG'', ''M'', ''START''), (''GCT'', ''A'', ''''), (''GCT'', ''G'', ''''),
      (''GGT'', ''G'', ''''), (''TAA'', ''*'', ''STOP'')] \<and>
   sorted (map row_key mixed_rows) \<and>
   calculate_codon_frequency_to_df [Inr mixed_record] 17 = Some (take 1 mixed_rows) \<and>
   sorted (map row_key (take 1 mixed_rows))"
proof -
  have a: "sorted (map row_key mixed_rows)"
    using report_sorted [of "[Inr mixed_record]" 0 mixed_rows] calculate_mixed_0 by blast
  have b: "sorted (map row_key (take 1 mixed_rows))"
    using report_sorted [of "[Inr mixed_record]" 17 "take 1 mixed_rows"] calculate_mixed_17
    by blast
  have k: "map row_key mixed_rows =
     [(''ATG'', ''M'', ''START''), (''GCT'', ''A'', ''''), (''GCT'', ''G'', ''''),
      (''GGT'', ''G'', ''''), (''TAA'', ''*'', ''STOP'')]"
    by (simp add: mixed_rows_def row_key_def)
  from a b k calculate_mixed_0 calculate_mixed_17 show ?thesis
    by blast
qed

section \<open>Absent results\<close>

lemma process_features_nonempty:
  "list_all nonempty_values fs \<Longrightarrow> \<exists>c'. process_features c fs = Inr c'"
  by (induction fs arbitrary: c) (simp_all add: process_feature_nonempty)

lemma parse_loop_raises:
  "list_all nonempty_values (source_features src) \<Longrightarrow>
   (\<exists>e. parse_loop c src = Inl e) \<longleftrightarrow> (\<exists>e. Inl e \<in> set src)"
proof (induction c src rule: parse_loop.induct)
  case (1 counts)
  then show ?case by simp
next
  case (2 counts e rest)
  then show ?case by auto
next
  case (3 counts r rest)
  from "3.prems" have a: "list_all nonempty_values (features r)"
    and b: "list_all nonempty_values (source_features rest)"
    by (simp_all add: source_features_def)
  obtain c1 where c1: "process_features counts (features r) = Inr c1"
    using process_features_nonempty [OF a] by blast
  show ?case
    using "3.IH" [OF c1 b] by (auto simp: c1)
qed

text \<open>
  Claim C4. On a source whose qualifier lists are non-empty, the result is
  \<^verbatim>\<open>None\<close> exactly when the reader raises (the file is missing or unreadable, or its
  content is malformed), whatever was counted before, or when the total of the counter
  after all records is zero. Otherwise the result is the table of the counter of the
  complete run, after the frequency filter.
\<close>

theorem absent_result_cases:
  "list_all nonempty_values (source_features src) \<longrightarrow>
     (calculate_codon_frequency_to_df src t = None \<longleftrightarrow>
        (\<exists>e. Inl e \<in> set src) \<or>
        (\<exists>counts. parse_loop [] src = Inr counts \<and> total_count counts = 0)) \<and>
     (calculate_codon_frequency_to_df src t \<noteq> None \<longrightarrow>
        (\<exists>counts. parse_loop [] src = Inr counts \<and>
           calculate_codon_frequency_to_df src t = Some (threshold_filter t (all_rows counts))))"
proof
  assume wf: "list_all nonempty_values (source_features src)"
  show "(calculate_codon_frequency_to_df src t = None \<longleftrightarrow>
        (\<exists>e. Inl e \<in> set src) \<or>
        (\<exists>counts. parse_loop [] src = Inr counts \<and> total_count counts = 0)) \<and>
     (calculate_codon_frequency_to_df src t \<noteq> None \<longrightarrow>
        (\<exists>counts. parse_loop [] src = Inr counts \<and>
           calculate_codon_frequency_to_df src t = Some (threshold_filter t (all_rows counts))))"
  proof (cases "parse_loop [] src")
    case (Inl e)
    then have "\<exists>e. Inl e \<in> set src"
      using parse_loop_raises [OF wf, of "[]"] by blast
    then show ?thesis
      by (simp add: calculate_codon_frequency_to_df_def Inl)
  next
    case (Inr counts)
    then have "\<not> (\<exists>e. Inl e \<in> set src)"
      using parse_loop_raises [OF wf, of "[]"] by auto
    then show ?thesis
      by (simp add: calculate_codon_frequency_to_df_def Inr build_report_eq)
  qed
qed

theorem absent_result_cases_witness:
  "list_all nonempty_values (source_features [Inl FileNotFoundError]) \<and>
   calculate_codon_frequency_to_df [Inl FileNotFoundError] 0 = None \<and>
   list_all nonempty_values (source_features [Inr scenario_record, Inl OtherException]) \<and>
   calculate_codon_frequency_to_df [Inr scenario_record, Inl OtherException] 0 = None \<and>
   list_all nonempty_values (source_features [Inr pseudo_record]) \<and>
   parse_loop [] [Inr pseudo_record] = Inr [] \<and>
   calculate_codon_frequency_to_df [Inr pseudo_record] 0 = None \<and>
   list_all nonempty_values (source_features [Inr scenario_record]) \<and>
   parse_loop [] [Inr scenario_record] = Inr three_codon_counts \<and>
   calculate_codon_frequency_to_df [Inr scenario_record] 0 =
     Some (threshold_filter 0 (all_rows three_codon_counts))"
proof -
  have n: "nonempty_values scenario_feature" "nonempty_values defect_pseudo"
    by (simp_all add: nonempty_values_def scenario_feature_def defect_pseudo_def)
  have w1: "list_all nonempty_values (source_features [Inl FileNotFoundError])"
    by (simp add: source_features_def)
  have w2: "list_all nonempty_values (source_features [Inr scenario_record, Inl OtherException])"
    using n by (simp add: source_features_def scenario_record_def)
  have w3: "list_all nonempty_values
      (source_features [Inr pseudo_record])"
    using n by (simp add: source_features_def pseudo_record_def)
  have w4: "list_all nonempty_values (source_features [Inr scenario_record])"
    using n by (simp add: source_features_def scenario_record_def)
  have p3: "parse_loop [] [Inr pseudo_record] = Inr []"
    unfolding pseudo_record_def defect_pseudo_def by code_simp
  have p4: "parse_loop [] [Inr scenario_record] = Inr three_codon_counts"
    unfolding scenario_record_def scenario_feature_def three_codon_counts_def by code_simp
  have r1: "calculate_codon_frequency_to_df [Inl FileNotFoundError] 0 = None"
    using absent_result_cases [of "[Inl FileNotFoundError]" 0] w1 by simp
  have r2: "calculate_codon_frequency_to_df [Inr scenario_record, Inl OtherException] 0 = None"
    using absent_result_cases [of "[Inr scenario_record, Inl OtherException]" 0] w2 by simp
  have r3: "calculate_codon_frequency_to_df
      [Inr pseudo_record] 0 = None"
    using absent_result_cases [of "[Inr pseudo_record]" 0] w3 p3
    by (simp add: total_count_def)
  have "calculate_codon_frequency_to_df [Inr scenario_record] 0 \<noteq> None"
    using absent_result_cases [of "[Inr scenario_record]" 0] w4 p4
    by (simp add: total_count_def three_codon_counts_def)
  then have r4: "calculate_codon_frequency_to_df [Inr scenario_record] 0 =
     Some (threshold_filter 0 (all_rows three_codon_counts))"
    using absent_result_cases [of "[Inr scenario_record]" 0] w4 p4 by auto
  from w1 w2 w3 w4 p3 p4 r1 r2 r3 r4 show ?thesis
    by blast
qed

section \<open>A CDS with an empty sequence\<close>

text \<open>
  Claim C10. A CDS feature with a non-empty translation, no pseudo qualifier and an
  empty extracted sequence passes the base check, is counted rather than skipped as
  defective, yields no codon event and leaves the counter as it is; the feature loop
  and the record loop go on as if the feature were not there.
\<close>

theorem empty_sequence_feature:
  "ftype f = ''CDS'' \<and> nonempty_values f \<and> translation_of f \<noteq> [] \<and>
   ''pseudo'' \<notin> dom (qualifiers f) \<and> extracted f = [] \<longrightarrow>
     set (upper (extracted f)) \<subseteq> VALID_BASES \<and> counted f \<and> \<not> defective f \<and>
     codon_events f = [] \<and>
     process_feature c f = Inr c \<and>
     process_features c (f # fs) = process_features c fs \<and>
     parse_loop c (Inr \<lparr>rec_id = i, features = f # fs\<rparr> # rest) =
       parse_loop c (Inr \<lparr>rec_id = i, features = fs\<rparr> # rest)"
proof
  assume a: "ftype f = ''CDS'' \<and> nonempty_values f \<and> translation_of f \<noteq> [] \<and>
   ''pseudo'' \<notin> dom (qualifiers f) \<and> extracted f = []"
  then have v: "set (upper (extracted f)) \<subseteq> VALID_BASES"
    by (simp add: upper_def)
  with a have c: "counted f"
    by (simp add: counted_def)
  then have d: "\<not> defective f"
    using defective_not_counted by blast
  have e: "codon_events f = []"
    using a by (simp add: codon_events_def range_step3_def)
  have p: "process_feature c f = Inr c"
    using a c process_feature_nonempty [of f c]
    by (simp add: count_codons_def range_step3_def)
  from v c d e p
  show "set (upper (extracted f)) \<subseteq> VALID_BASES \<and> counted f \<and> \<not> defective f \<and>
     codon_events f = [] \<and>
     process_feature c f = Inr c \<and>
     process_features c (f # fs) = process_features c fs \<and>
     parse_loop c (Inr \<lparr>rec_id = i, features = f # fs\<rparr> # rest) =
       parse_loop c (Inr \<lparr>rec_id = i, features = fs\<rparr> # rest)"
    by simp
qed

theorem empty_sequence_feature_witness:
  "ftype empty_seq_feature = ''CDS'' \<and> nonempty_values empty_seq_feature \<and>
   translation_of empty_seq_feature \<noteq> [] \<and>
   ''pseudo'' \<notin> dom (qualifiers empty_seq_feature) \<and> extracted empty_seq_feature = [] \<and>
   counted empty_seq_feature \<and>
   process_feature three_codon_counts empty_seq_feature = Inr three_codon_counts \<and>
   process_features [] [empty_seq_feature, truncated_feature] = Inr three_codon_counts"
proof -
  have h: "ftype empty_seq_feature = ''CDS''" "nonempty_values empty_seq_feature"
    "translation_of empty_seq_feature \<noteq> []"
    "''pseudo'' \<notin> dom (qualifiers empty_seq_feature)" "extracted empty_seq_feature = []"
    by (simp_all add: empty_seq_feature_def nonempty_values_def translation_of_def
        qualifier_first_def)
  have pf: "process_features [] [truncated_feature] = Inr three_codon_counts"
    unfolding truncated_feature_def three_codon_counts_def by code_simp
  from empty_sequence_feature [of empty_seq_feature three_codon_counts "[]" "[]" "[]"] h
  have a: "counted empty_seq_feature \<and>
      process_feature three_codon_counts empty_seq_feature = Inr three_codon_counts"
    by blast
  from empty_sequence_feature [of empty_seq_feature "[]" "[truncated_feature]" "[]" "[]"] h pf
  have b: "process_features [] [empty_seq_feature, truncated_feature] = Inr three_codon_counts"
    by simp
  from h a b show ?thesis by blast
qed

end
